theory Spec2Isabelle
  imports Main
begin

section \<open>The deployment-block locator of wagmi-extended\<close>

text \<open>
  The development embeds \<^verbatim>\<open>fetch-functions/common/fetchDeploymentBlockX.ts\<close>:
  the search \<^verbatim>\<open>findDeploymentBlockRpcX\<close> over the RPC client, the
  \<^verbatim>\<open>localStorage\<close> tier, the query keys and the entry point
  \<^verbatim>\<open>fetchDeploymentBlockX\<close>.

  JavaScript \<^verbatim>\<open>bigint\<close> values are \<^typ>\<open>int\<close>, strings are \<^typ>\<open>string\<close>,
  a thrown exception is the \<open>Inl\<close> branch of a sum, and every asynchronous
  function is sequential code that threads the state it touches.
\<close>

subsection \<open>Errors, the RPC client and the call log\<close>

text \<open>
  One constructor for each \<^verbatim>\<open>throw\<close> of the source and for each exception the
  browser storage, \<^verbatim>\<open>BigInt\<close> or the hashing of a query key can raise. An RPC
  failure carries the transport's own message.
\<close>

datatype error =
    AddressRequired
  | DefaultsNotSet
  | ClientOrConfigMissing
  | WagmiConfigRequired
  | ChainIdMissing
  | PublicClientMissing
  | NoCode string int int
  | OracleError string
  | SecurityError
  | QuotaExceededError
  | SyntaxError
  | TypeError

text \<open>
  The public client of viem, reduced to what the source reads from it:
  \<^verbatim>\<open>client.chain?.id\<close>, \<^verbatim>\<open>client.getBlockNumber()\<close> and
  \<^verbatim>\<open>client.getCode({ address, blockNumber })\<close>, whose result is
  \<^verbatim>\<open>Hex | undefined\<close>. Either request may fail.
\<close>

record client =
  chain_id :: "int option"
  getBlockNumber :: "string + int"
  getCode :: "string \<Rightarrow> int \<Rightarrow> string + string option"

text \<open>\<^verbatim>\<open>getPublicClient(wagmiConfig)\<close> yields the client or \<^verbatim>\<open>undefined\<close>.\<close>

datatype config = Config (getPublicClient: "client option")

text \<open>Every request sent to the node is appended to a log, in order.\<close>

datatype call = GetBlockNumber | GetCode string int

subsection \<open>\<^verbatim>\<open>hasCodeAtX\<close>\<close>

text \<open>The test \<^verbatim>\<open>!!code && code !== "0x"\<close> on a \<^verbatim>\<open>Hex | undefined\<close>.\<close>

definition isCode :: "string option \<Rightarrow> bool" where
  "isCode code = (code \<noteq> None \<and> code \<noteq> Some [] \<and> code \<noteq> Some ''0x'')"

definition hasCodeAtX ::
  "string \<Rightarrow> int \<Rightarrow> config \<Rightarrow> call list \<Rightarrow> (error + bool) \<times> call list" where
  "hasCodeAtX address blockNumber wagmiConfig log =
     (case getPublicClient wagmiConfig of
        None \<Rightarrow> (Inl PublicClientMissing, log)
      | Some client \<Rightarrow>
          (case getCode client address blockNumber of
             Inl e \<Rightarrow> (Inl (OracleError e), log @ [GetCode address blockNumber])
           | Inr code \<Rightarrow>
               (Inr (isCode code), log @ [GetCode address blockNumber])))"

subsection \<open>The two loops of \<^verbatim>\<open>findDeploymentBlockRpcX\<close>\<close>

text \<open>
  \<^verbatim>\<open>/\<close> on \<^verbatim>\<open>bigint\<close> truncates towards zero.
\<close>

definition bigint_div :: "int \<Rightarrow> int \<Rightarrow> int" where
  "bigint_div a b = sgn a * sgn b * (\<bar>a\<bar> div \<bar>b\<bar>)"

text \<open>
  The exponential descent
  \<^verbatim>\<open>while (hi - step > lo) { probe = hi - step; if (hasCode) { hi = probe; step <<= 1n } else { lo = probe; break } }\<close>.
  The loop is not known to end for every value of its variables (with \<open>step = 0\<close>
  and code at \<open>hi\<close> it would spin), so it lives in the option monad: \<open>None\<close> is
  a run that never returns. Its value is the pair \<open>(lo, hi)\<close> the loop leaves behind.
\<close>

partial_function (option) descent ::
  "string \<Rightarrow> config \<Rightarrow> int \<Rightarrow> int \<Rightarrow> int \<Rightarrow> call list
     \<Rightarrow> ((error + int \<times> int) \<times> call list) option" where
  "descent address wagmiConfig lo hi step log =
     (if hi - step > lo then
        (case hasCodeAtX address (hi - step) wagmiConfig log of
           (Inl e, log') \<Rightarrow> Some (Inl e, log')
         | (Inr has, log') \<Rightarrow>
             if has then descent address wagmiConfig lo (hi - step) (push_bit 1 step) log'
             else Some (Inr (hi - step, hi), log'))
      else Some (Inr (lo, hi), log))"

declare descent.simps [code]

text \<open>
  The binary search
  \<^verbatim>\<open>while (lo + 1n < hi) { mid = lo + (hi - lo) / 2n; if (hasCode) hi = mid; else lo = mid }\<close>.
\<close>

function bsearch ::
  "string \<Rightarrow> config \<Rightarrow> int \<Rightarrow> int \<Rightarrow> call list \<Rightarrow> (error + int \<times> int) \<times> call list" where
  "bsearch address wagmiConfig lo hi log =
     (if lo + 1 < hi then
        (case hasCodeAtX address (lo + bigint_div (hi - lo) 2) wagmiConfig log of
           (Inl e, log') \<Rightarrow> (Inl e, log')
         | (Inr has, log') \<Rightarrow>
             if has then bsearch address wagmiConfig lo (lo + bigint_div (hi - lo) 2) log'
             else bsearch address wagmiConfig (lo + bigint_div (hi - lo) 2) hi log')
      else (Inr (lo, hi), log))"
  by pat_completeness auto

termination bsearch
  by (relation "measure (\<lambda>(address, wagmiConfig, lo, hi, log). nat (hi - lo))")
     (auto simp: bigint_div_def pos_imp_zdiv_pos_iff)

declare bsearch.simps [simp del]

subsection \<open>\<^verbatim>\<open>findDeploymentBlockRpcX\<close>\<close>

definition findDeploymentBlockRpcX ::
  "string \<Rightarrow> config \<Rightarrow> int \<Rightarrow> call list \<Rightarrow> ((error + int) \<times> call list) option" where
  "findDeploymentBlockRpcX address wagmiConfig floor log =
     (case getPublicClient wagmiConfig of
        None \<Rightarrow> Some (Inl PublicClientMissing, log)
      | Some client \<Rightarrow>
          (case getBlockNumber client of
             Inl e \<Rightarrow> Some (Inl (OracleError e), log @ [GetBlockNumber])
           | Inr latest \<Rightarrow>
               (case hasCodeAtX address latest wagmiConfig (log @ [GetBlockNumber]) of
                  (Inl e, log1) \<Rightarrow> Some (Inl e, log1)
                | (Inr False, log1) \<Rightarrow>
                    Some (Inl (NoCode address latest
                                 (case chain_id client of None \<Rightarrow> 0 | Some i \<Rightarrow> i)), log1)
                | (Inr True, log1) \<Rightarrow>
                    (case (if floor > 0 then hasCodeAtX address floor wagmiConfig log1
                           else (Inr False, log1)) of
                       (Inl e, log2) \<Rightarrow> Some (Inl e, log2)
                     | (Inr True, log2) \<Rightarrow> Some (Inr floor, log2)
                     | (Inr False, log2) \<Rightarrow>
                         (case descent address wagmiConfig floor latest 1 log2 of
                            None \<Rightarrow> None
                          | Some (Inl e, log3) \<Rightarrow> Some (Inl e, log3)
                          | Some (Inr (lo, hi), log3) \<Rightarrow>
                              (case bsearch address wagmiConfig lo hi log3 of
                                 (Inl e, log4) \<Rightarrow> Some (Inl e, log4)
                               | (Inr (lo', hi'), log4) \<Rightarrow> Some (Inr hi', log4)))))))"

subsection \<open>Text of numbers: \<^verbatim>\<open>toString\<close>, \<^verbatim>\<open>BigInt\<close>, \<^verbatim>\<open>toLowerCase\<close>\<close>

text \<open>
  Strings are lists of ASCII characters, which is what an \<^verbatim>\<open>Address\<close>
  (\<^verbatim>\<open>0x\<close> and hexadecimal digits), a decimal numeral and the storage keys of
  this module are. \<^verbatim>\<open>toLowerCase\<close> maps \<open>A\<close>..\<open>Z\<close> to \<open>a\<close>..\<open>z\<close>.
\<close>

definition lowerChar :: "char \<Rightarrow> char" where
  "lowerChar c =
     (let n = (of_char c :: nat) in if 65 \<le> n \<and> n \<le> 90 then char_of (n + 32) else c)"

definition toLowerCase :: "string \<Rightarrow> string" where
  "toLowerCase s = map lowerChar s"

text \<open>\<^verbatim>\<open>bigint.toString()\<close>: the decimal numeral, with a minus sign below zero.\<close>

definition digitChar :: "nat \<Rightarrow> char" where
  "digitChar d = char_of (48 + d)"

fun natToString :: "nat \<Rightarrow> string" where
  "natToString n =
     (if n < 10 then [digitChar n] else natToString (n div 10) @ [digitChar (n mod 10)])"

declare natToString.simps [simp del]

definition bigintToString :: "int \<Rightarrow> string" where
  "bigintToString v =
     (if v < 0 then CHR ''-'' # natToString (nat (- v)) else natToString (nat v))"

text \<open>
  A chain id is an integer \<^verbatim>\<open>number\<close>; the template literal prints it in
  decimal as well.
\<close>

definition numberToString :: "int \<Rightarrow> string" where
  "numberToString n = bigintToString n"

text \<open>
  \<^verbatim>\<open>BigInt(text)\<close> follows the StringToBigInt grammar of ECMAScript: white space
  is trimmed, the empty text is \<open>0\<close>, a \<^verbatim>\<open>0x\<close>, \<^verbatim>\<open>0o\<close> or \<^verbatim>\<open>0b\<close> prefix
  selects the radix, and only a decimal numeral may carry a sign. Anything else
  raises \<^verbatim>\<open>SyntaxError\<close>.
\<close>

definition isWhiteSpace :: "char \<Rightarrow> bool" where
  "isWhiteSpace c = ((of_char c :: nat) \<in> {9, 10, 11, 12, 13, 32})"

definition trim :: "string \<Rightarrow> string" where
  "trim s = rev (dropWhile isWhiteSpace (rev (dropWhile isWhiteSpace s)))"

definition digitVal :: "char \<Rightarrow> nat option" where
  "digitVal c =
     (let n = (of_char c :: nat) in
      if 48 \<le> n \<and> n \<le> 57 then Some (n - 48)
      else if 97 \<le> n \<and> n \<le> 102 then Some (n - 87)
      else if 65 \<le> n \<and> n \<le> 70 then Some (n - 55)
      else None)"

fun parseDigits :: "nat \<Rightarrow> string \<Rightarrow> nat \<Rightarrow> nat option" where
  "parseDigits radix [] acc = Some acc"
| "parseDigits radix (c # cs) acc =
     (case digitVal c of
        None \<Rightarrow> None
      | Some d \<Rightarrow> if d < radix then parseDigits radix cs (acc * radix + d) else None)"

definition parseRadix :: "nat \<Rightarrow> string \<Rightarrow> nat option" where
  "parseRadix radix s = (if s = [] then None else parseDigits radix s 0)"

definition StringToBigInt :: "string \<Rightarrow> int option" where
  "StringToBigInt text =
     (let s = trim text in
      if s = [] then Some 0
      else if take 2 s = ''0x'' \<or> take 2 s = ''0X'' then map_option int (parseRadix 16 (drop 2 s))
      else if take 2 s = ''0o'' \<or> take 2 s = ''0O'' then map_option int (parseRadix 8 (drop 2 s))
      else if take 2 s = ''0b'' \<or> take 2 s = ''0B'' then map_option int (parseRadix 2 (drop 2 s))
      else if hd s = CHR ''-'' then map_option (\<lambda>n. - int n) (parseRadix 10 (tl s))
      else if hd s = CHR ''+'' then map_option int (parseRadix 10 (tl s))
      else map_option int (parseRadix 10 s))"

definition BigInt :: "string \<Rightarrow> error + int" where
  "BigInt text = (case StringToBigInt text of None \<Rightarrow> Inl SyntaxError | Some v \<Rightarrow> Inr v)"

subsection \<open>Keys\<close>

text \<open>
  \<^verbatim>\<open>["deploymentBlock", chainId, address?.toLowerCase(), floor]\<close>, where the
  chain id and the address may be \<^verbatim>\<open>undefined\<close>.
\<close>

type_synonym query_key = "string \<times> int option \<times> string option \<times> int"

definition deploymentBlockKey :: "int option \<Rightarrow> string option \<Rightarrow> int \<Rightarrow> query_key" where
  "deploymentBlockKey chainId address floor =
     (''deploymentBlock'', chainId, map_option toLowerCase address, floor)"

definition lsKeyForDeploymentBlock :: "int \<Rightarrow> string \<Rightarrow> int \<Rightarrow> string" where
  "lsKeyForDeploymentBlock chainId address floor =
     ''wagmi-extended:deploymentBlock:'' @ numberToString chainId @ '':''
       @ toLowerCase address @ '':'' @ bigintToString floor"

subsection \<open>The browser storage and the state of the module\<close>

text \<open>
  \<^verbatim>\<open>window.localStorage\<close>: a table of texts whose \<^verbatim>\<open>getItem\<close> and
  \<^verbatim>\<open>setItem\<close> may raise (a security policy, a full quota).
\<close>

record storage =
  items :: "string \<rightharpoonup> string"
  getItem_throws :: "string \<Rightarrow> bool"
  setItem_throws :: "string \<Rightarrow> string \<Rightarrow> bool"

definition getItem :: "storage \<Rightarrow> string \<Rightarrow> error + string option" where
  "getItem st k = (if getItem_throws st k then Inl SecurityError else Inr (items st k))"

definition setItem :: "storage \<Rightarrow> string \<Rightarrow> string \<Rightarrow> error + storage" where
  "setItem st k v =
     (if setItem_throws st k v then Inl QuotaExceededError
      else Inr (st\<lparr>items := (items st)(k \<mapsto> v)\<rparr>))"

text \<open>
  What the module reads and writes besides its arguments:
  \<^item> \<open>localStorage\<close> is \<open>None\<close> where \<^verbatim>\<open>canUseBrowserStorage\<close> is false
    (no \<^verbatim>\<open>window\<close>, or no \<^verbatim>\<open>window.localStorage\<close>);
  \<^item> \<open>queryData\<close> is the data each \<^verbatim>\<open>QueryClient\<close> holds, by the hash of the
    query key; a \<^verbatim>\<open>QueryClient\<close> is named by a number;
  \<^item> \<open>queryKeyHashFn\<close> is the function each \<^verbatim>\<open>QueryClient\<close> hashes a query
    key with (its \<^verbatim>\<open>defaultOptions.queries.queryKeyHashFn\<close>, or the default
    \<^verbatim>\<open>hashKey\<close>); \<open>None\<close> is a hash that raises;
  \<^item> \<open>defaultQueryClient\<close> and \<open>defaultWagmiConfig\<close> are the module variables of
    \<^verbatim>\<open>config/defaults.ts\<close>;
  \<^item> \<open>calls\<close> is the log of requests sent to the node.
\<close>

record world =
  localStorage :: "storage option"
  queryData :: "nat \<Rightarrow> string \<rightharpoonup> int"
  queryKeyHashFn :: "nat \<Rightarrow> query_key \<Rightarrow> string option"
  defaultQueryClient :: "nat option"
  defaultWagmiConfig :: "config option"
  calls :: "call list"

subsection \<open>\<^verbatim>\<open>readDeploymentBlockFromLS\<close> and \<^verbatim>\<open>writeDeploymentBlockToLS\<close>\<close>

text \<open>
  The body of the \<^verbatim>\<open>try\<close> of the reader:
  \<^verbatim>\<open>raw = getItem(key); return raw ? BigInt(raw) : undefined\<close>. A missing item
  (\<^verbatim>\<open>null\<close>) and the empty text are falsy.
\<close>

definition readDeploymentBlockFromLS_try ::
  "storage \<Rightarrow> int \<Rightarrow> string \<Rightarrow> int \<Rightarrow> error + int option" where
  "readDeploymentBlockFromLS_try st chainId address floor =
     (case getItem st (lsKeyForDeploymentBlock chainId address floor) of
        Inl e \<Rightarrow> Inl e
      | Inr None \<Rightarrow> Inr None
      | Inr (Some raw) \<Rightarrow>
          if raw = [] then Inr None
          else (case BigInt raw of Inl e \<Rightarrow> Inl e | Inr v \<Rightarrow> Inr (Some v)))"

definition readDeploymentBlockFromLS :: "int \<Rightarrow> string \<Rightarrow> int \<Rightarrow> world \<Rightarrow> int option" where
  "readDeploymentBlockFromLS chainId address floor w =
     (case localStorage w of
        None \<Rightarrow> None
      | Some st \<Rightarrow>
          (case readDeploymentBlockFromLS_try st chainId address floor of
             Inl e \<Rightarrow> None
           | Inr v \<Rightarrow> v))"

definition writeDeploymentBlockToLS :: "int \<Rightarrow> string \<Rightarrow> int \<Rightarrow> int \<Rightarrow> world \<Rightarrow> world" where
  "writeDeploymentBlockToLS chainId address floor v w =
     (case localStorage w of
        None \<Rightarrow> w
      | Some st \<Rightarrow>
          (case setItem st (lsKeyForDeploymentBlock chainId address floor) (bigintToString v) of
             Inl e \<Rightarrow> w
           | Inr st' \<Rightarrow> w\<lparr>localStorage := Some st'\<rparr>))"

subsection \<open>\<^verbatim>\<open>getDefaults\<close> and \<^verbatim>\<open>ensureClientAndConfig\<close>\<close>

definition getDefaults :: "world \<Rightarrow> error + nat option \<times> config option" where
  "getDefaults w =
     (if defaultQueryClient w = None \<or> defaultWagmiConfig w = None then Inl DefaultsNotSet
      else Inr (defaultQueryClient w, defaultWagmiConfig w))"

definition ensureClientAndConfig ::
  "nat option \<Rightarrow> config option \<Rightarrow> world \<Rightarrow> error + nat \<times> config" where
  "ensureClientAndConfig queryClient wagmiConfig w =
     (case (if queryClient = None \<or> wagmiConfig = None then getDefaults w
            else Inr (queryClient, wagmiConfig)) of
        Inl e \<Rightarrow> Inl e
      | Inr (Some qc, Some cfg) \<Rightarrow> Inr (qc, cfg)
      | Inr _ \<Rightarrow> Inl ClientOrConfigMissing)"

subsection \<open>The query function and its options\<close>

text \<open>\<^verbatim>\<open>c?.chain?.id\<close> of an optional client.\<close>

definition chainIdOf :: "client option \<Rightarrow> int option" where
  "chainIdOf c = (case c of None \<Rightarrow> None | Some cl \<Rightarrow> chain_id cl)"

text \<open>
  The \<^verbatim>\<open>queryFn\<close> closure built by \<^verbatim>\<open>getDeploymentBlockQueryOptionsX\<close>, with
  the variables it captures as arguments. \<^verbatim>\<open>!cid\<close> holds for a missing chain id
  and for \<open>0\<close>.
\<close>

definition queryFn ::
  "string \<Rightarrow> int \<Rightarrow> config option \<Rightarrow> bool \<Rightarrow> world \<Rightarrow> ((error + int) \<times> world) option" where
  "queryFn address floor wagmiConfig disableLocalStorage w =
     (case wagmiConfig of
        None \<Rightarrow> Some (Inl WagmiConfigRequired, w)
      | Some cfg \<Rightarrow>
          (case chainIdOf (getPublicClient cfg) of
             None \<Rightarrow> Some (Inl ChainIdMissing, w)
           | Some cid \<Rightarrow>
               if cid = 0 then Some (Inl ChainIdMissing, w)
               else
                 (case (if \<not> disableLocalStorage
                        then readDeploymentBlockFromLS cid address floor w else None) of
                    Some fromLS \<Rightarrow> Some (Inr fromLS, w)
                  | None \<Rightarrow>
                      (case findDeploymentBlockRpcX address cfg floor (calls w) of
                         None \<Rightarrow> None
                       | Some (Inl e, log') \<Rightarrow> Some (Inl e, w\<lparr>calls := log'\<rparr>)
                       | Some (Inr discovered, log') \<Rightarrow>
                           Some (Inr discovered,
                                 if \<not> disableLocalStorage
                                 then writeDeploymentBlockToLS cid address floor discovered
                                        (w\<lparr>calls := log'\<rparr>)
                                 else w\<lparr>calls := log'\<rparr>)))))"

record query_options =
  queryKey :: query_key
  queryFunction :: "world \<Rightarrow> ((error + int) \<times> world) option"
  staleTimeInfinite :: bool

text \<open>
  \<^verbatim>\<open>...queryConfig.metaDataQuery\<close> sets \<^verbatim>\<open>staleTime\<close> to
  \<^verbatim>\<open>Number.POSITIVE_INFINITY\<close>. \<^verbatim>\<open>!address\<close> holds for the empty text.
\<close>

definition getDeploymentBlockQueryOptionsX ::
  "string \<Rightarrow> int \<Rightarrow> config option \<Rightarrow> bool option \<Rightarrow> error + query_options" where
  "getDeploymentBlockQueryOptionsX address floor wagmiConfig optDisableLocalStorage =
     (if address = [] then Inl AddressRequired
      else
        (let disableLocalStorage =
               (case optDisableLocalStorage of None \<Rightarrow> False | Some b \<Rightarrow> b);
             client = (case wagmiConfig of None \<Rightarrow> None | Some cfg \<Rightarrow> getPublicClient cfg);
             chainId = chainIdOf client
         in Inr \<lparr>queryKey = deploymentBlockKey chainId (Some address) floor,
                 queryFunction = queryFn address floor wagmiConfig disableLocalStorage,
                 staleTimeInfinite = True\<rparr>))"

subsection \<open>The query client\<close>


text \<open>
  The \<^verbatim>\<open>hashFn\<close> of wagmi prints a \<^verbatim>\<open>bigint\<close> as its decimal text inside the
  JSON text of the key; \<^verbatim>\<open>undefined\<close> in an array is printed \<^verbatim>\<open>null\<close>. The
  texts of this module's keys need no escaping.
\<close>

definition jsonString :: "string \<Rightarrow> string" where
  "jsonString s = CHR 0x22 # s @ [CHR 0x22]"

definition hashFn :: "query_key \<Rightarrow> string option" where
  "hashFn key =
     (case key of (tag, chainId, address, floor) \<Rightarrow>
        Some (''['' @ jsonString tag @ '',''
              @ (case chainId of None \<Rightarrow> ''null'' | Some n \<Rightarrow> numberToString n) @ '',''
              @ (case address of None \<Rightarrow> ''null'' | Some a \<Rightarrow> jsonString a) @ '',''
              @ jsonString (bigintToString floor) @ '']''))"

definition setQueryData :: "nat \<Rightarrow> query_key \<Rightarrow> int \<Rightarrow> world \<Rightarrow> error + world" where
  "setQueryData qc key d w =
     (case queryKeyHashFn w qc key of
        None \<Rightarrow> Inl TypeError
      | Some h \<Rightarrow> Inr (w\<lparr>queryData := (queryData w)(qc := (queryData w qc)(h \<mapsto> d))\<rparr>))"

definition fetchQuery ::
  "nat \<Rightarrow> query_key \<Rightarrow> (world \<Rightarrow> ((error + int) \<times> world) option) \<Rightarrow> world
     \<Rightarrow> ((error + int) \<times> world) option" where
  "fetchQuery qc key fn w =
     (case queryKeyHashFn w qc key of
        None \<Rightarrow> Some (Inl TypeError, w)
      | Some h \<Rightarrow>
          (case queryData w qc h of
             Some d \<Rightarrow> Some (Inr d, w)
           | None \<Rightarrow>
               (case fn w of
                  None \<Rightarrow> None
                | Some (Inl e, w') \<Rightarrow> Some (Inl e, w')
                | Some (Inr d, w') \<Rightarrow>
                    Some (Inr d,
                          w'\<lparr>queryData := (queryData w')(qc := (queryData w' qc)(h \<mapsto> d))\<rparr>))))"

subsection \<open>\<^verbatim>\<open>fetchDeploymentBlockX\<close>\<close>

text \<open>The \<^verbatim>\<open>options\<close> argument; an omitted field is \<open>None\<close>.\<close>

record fetch_options =
  optDisableLocalStorage :: "bool option"
  optChainId :: "int option"

text \<open>\<^verbatim>\<open>a || b\<close> on optional numbers: \<open>a\<close> unless it is missing or \<open>0\<close>.\<close>

definition orElse :: "int option \<Rightarrow> int option \<Rightarrow> int option" where
  "orElse a b = (case a of None \<Rightarrow> b | Some n \<Rightarrow> if n = 0 then b else Some n)"

definition fetchDeploymentBlockX ::
  "string \<Rightarrow> int \<Rightarrow> fetch_options \<Rightarrow> nat option \<Rightarrow> config option \<Rightarrow> world
     \<Rightarrow> ((error + int) \<times> world) option" where
  "fetchDeploymentBlockX address floor options queryClient wagmiConfig w =
     (if address = [] then Some (Inl AddressRequired, w)
      else
        (case ensureClientAndConfig queryClient wagmiConfig w of
           Inl e \<Rightarrow> Some (Inl e, w)
         | Inr (qc, cfg) \<Rightarrow>
             (case orElse (optChainId options) (chainIdOf (getPublicClient cfg)) of
                None \<Rightarrow> Some (Inl ChainIdMissing, w)
              | Some chainId \<Rightarrow>
                  if chainId = 0 then Some (Inl ChainIdMissing, w)
                  else
                    (let key = deploymentBlockKey (Some chainId) (Some address) floor;
                         disableLocalStorage =
                           (case optDisableLocalStorage options of None \<Rightarrow> False | Some b \<Rightarrow> b);
                         seeded = (if \<not> disableLocalStorage
                                   then (case readDeploymentBlockFromLS chainId address floor w of
                                           None \<Rightarrow> Inr w
                                         | Some fromLS \<Rightarrow> setQueryData qc key fromLS w)
                                   else Inr w)
                     in case seeded of
                          Inl e \<Rightarrow> Some (Inl e, w)
                        | Inr w1 \<Rightarrow>
                            (case getDeploymentBlockQueryOptionsX address floor (Some cfg)
                                    (Some disableLocalStorage) of
                               Inl e \<Rightarrow> Some (Inl e, w1)
                             | Inr opts \<Rightarrow> fetchQuery qc key (queryFunction opts) w1)))))"

subsection \<open>Vocabulary of the statements\<close>

text \<open>
  What the node answers for a block: \<open>Some True\<close> for code, \<open>Some False\<close> for
  none, \<open>None\<close> when the request fails.
\<close>

definition codeAt :: "client \<Rightarrow> string \<Rightarrow> int \<Rightarrow> bool option" where
  "codeAt cl address b =
     (case getCode cl address b of Inl e \<Rightarrow> None | Inr code \<Rightarrow> Some (isCode code))"

text \<open>
  A well-formed address in the sense of the data model, a 20-byte identifier in
  hexadecimal text: \<^verbatim>\<open>0x\<close> and forty hexadecimal digits. The source has no such
  test; the predicate only names the inputs a statement is about.
\<close>

definition specWellFormedAddress :: "string \<Rightarrow> bool" where
  "specWellFormedAddress s =
     (length s = 42 \<and> take 2 s = ''0x'' \<and> list_all (\<lambda>c. digitVal c \<noteq> None) (drop 2 s))"

text \<open>A storage that works and holds nothing.\<close>

definition emptyStorage :: storage where
  "emptyStorage =
     \<lparr>items = Map.empty, getItem_throws = (\<lambda>k. False), setItem_throws = (\<lambda>k v. False)\<rparr>"


fun joinWith :: "string \<Rightarrow> string list \<Rightarrow> string" where
  "joinWith sep [] = []"
| "joinWith sep [x] = x"
| "joinWith sep (x # y # ys) = x @ sep @ joinWith sep (y # ys)"


section \<open>The search\<close>

subsection \<open>One probe, and one turn of each loop\<close>

lemma hasCodeAtX_answer:
  "getPublicClient cfg = Some cl \<Longrightarrow> codeAt cl a b = Some v \<Longrightarrow>
     hasCodeAtX a b cfg log = (Inr v, log @ [GetCode a b])"
  by (auto simp: hasCodeAtX_def codeAt_def split: sum.splits)

lemma hasCodeAtX_codeAt:
  "getPublicClient cfg = Some cl \<Longrightarrow> hasCodeAtX a b cfg log = (Inr v, log') \<Longrightarrow>
     codeAt cl a b = Some v"
  by (auto simp: hasCodeAtX_def codeAt_def split: sum.splits)

lemma hasCodeAtX_log:
  "hasCodeAtX a b cfg log = (r, log') \<Longrightarrow>
     log' = log \<or> log' = log @ [GetCode a b]"
  by (auto simp: hasCodeAtX_def split: option.splits sum.splits)

lemma hasCodeAtX_Inr_log:
  "hasCodeAtX a b cfg log = (Inr v, log') \<Longrightarrow> log' = log @ [GetCode a b]"
  by (auto simp: hasCodeAtX_def split: option.splits sum.splits)

lemma bigint_div_half: "1 < d \<Longrightarrow> 0 < bigint_div d 2 \<and> bigint_div d 2 < d"
  by (simp add: bigint_div_def pos_imp_zdiv_pos_iff)

lemma bsearch_mid:
  "lo + 1 < hi \<Longrightarrow>
     lo < lo + bigint_div (hi - lo) 2 \<and> lo + bigint_div (hi - lo) 2 < hi"
  using bigint_div_half [of "hi - lo"] by simp

lemma descent_stop:
  "\<not> lo < hi - step \<Longrightarrow> descent a cfg lo hi step log = Some (Inr (lo, hi), log)"
  by (subst descent.simps) simp

lemma descent_err:
  "lo < hi - step \<Longrightarrow> hasCodeAtX a (hi - step) cfg log = (Inl e, log1) \<Longrightarrow>
     descent a cfg lo hi step log = Some (Inl e, log1)"
  by (subst descent.simps) simp

lemma descent_no:
  "lo < hi - step \<Longrightarrow> hasCodeAtX a (hi - step) cfg log = (Inr False, log1) \<Longrightarrow>
     descent a cfg lo hi step log = Some (Inr (hi - step, hi), log1)"
  by (subst descent.simps) simp

lemma descent_yes:
  "lo < hi - step \<Longrightarrow> hasCodeAtX a (hi - step) cfg log = (Inr True, log1) \<Longrightarrow>
     descent a cfg lo hi step log = descent a cfg lo (hi - step) (step * 2) log1"
  by (subst descent.simps) (simp add: push_bit_eq_mult)

lemma descent_loop_induct [consumes 1, case_names stop err no yes]:
  assumes "1 \<le> step"
    and "\<And>hi step log. 1 \<le> step \<Longrightarrow> \<not> lo < hi - step \<Longrightarrow> P hi step log"
    and "\<And>hi step log e log1. 1 \<le> step \<Longrightarrow> lo < hi - step \<Longrightarrow>
           hasCodeAtX a (hi - step) cfg log = (Inl e, log1) \<Longrightarrow> P hi step log"
    and "\<And>hi step log log1. 1 \<le> step \<Longrightarrow> lo < hi - step \<Longrightarrow>
           hasCodeAtX a (hi - step) cfg log = (Inr False, log1) \<Longrightarrow> P hi step log"
    and "\<And>hi step log log1. 1 \<le> step \<Longrightarrow> lo < hi - step \<Longrightarrow>
           hasCodeAtX a (hi - step) cfg log = (Inr True, log1) \<Longrightarrow>
           P (hi - step) (step * 2) log1 \<Longrightarrow> P hi step log"
  shows "P hi step log"
proof -
  have "P hi step log" if "nat (hi - lo) = n" and "1 \<le> step" for n hi step log
    using that
  proof (induction n arbitrary: hi step log rule: less_induct)
    case (less n hi step log)
    show ?case
    proof (cases "lo < hi - step")
      case False
      with less.prems show ?thesis by (auto intro: assms(2))
    next
      case True
      obtain r log1 where h: "hasCodeAtX a (hi - step) cfg log = (r, log1)"
        by (cases "hasCodeAtX a (hi - step) cfg log")
      show ?thesis
      proof (cases r)
        case (Inl e)
        with less.prems True h show ?thesis by (auto intro: assms(3))
      next
        case (Inr has)
        show ?thesis
        proof (cases has)
          case False
          with less.prems True h Inr show ?thesis by (auto intro: assms(4))
        next
          case has: True
          have "nat (hi - step - lo) < n"
            using less.prems True by auto
          from less.IH [OF this refl, of "step * 2" log1] less.prems
          have "P (hi - step) (step * 2) log1"
            by simp
          with less.prems True h Inr has show ?thesis by (auto intro: assms(5))
        qed
      qed
    qed
  qed
  with assms(1) show ?thesis by simp
qed

lemma descent_total:
  "1 \<le> step \<Longrightarrow> \<exists>r log'. descent a cfg lo hi step log = Some (r, log')"
  by (induction hi step log rule: descent_loop_induct [where a = a and cfg = cfg and lo = lo])
     (simp_all add: descent_stop descent_err descent_no descent_yes)

lemma descent_range:
  "1 \<le> step \<Longrightarrow> descent a cfg lo hi step log = Some (Inr (lo', hi'), log') \<Longrightarrow>
     lo \<le> lo' \<and> hi' \<le> hi \<and> (lo < hi \<longrightarrow> lo' < hi')"
  by (induction hi step log rule: descent_loop_induct [where a = a and cfg = cfg and lo = lo])
     (auto simp: descent_stop descent_err descent_no descent_yes)


lemma descent_probes:
  "1 \<le> step \<Longrightarrow> descent a cfg lo hi step log = Some (r, log') \<Longrightarrow>
     \<exists>ps. log' = log @ ps \<and>
       (if lo < hi then step * 2 ^ length ps < hi - lo + step else ps = [])"
proof (induction hi step log rule: descent_loop_induct [where a = a and cfg = cfg and lo = lo])
  case (stop hi step log)
  then show ?case by (auto simp: descent_stop)
next
  case (err hi step log e log1)
  from hasCodeAtX_log [OF err(3)] err show ?case
    by (auto simp: descent_err)
next
  case (no hi step log log1)
  from hasCodeAtX_log [OF no(3)] no show ?case
    by (auto simp: descent_no)
next
  case (yes hi step log log1)
  from yes have d: "descent a cfg lo (hi - step) (step * 2) log1 = Some (r, log')"
    by (simp add: descent_yes)
  from yes.IH [OF d] yes(2) obtain ps where
    ps: "log' = log1 @ ps" "step * 2 * 2 ^ length ps < hi - step - lo + step * 2"
    by auto
  from hasCodeAtX_Inr_log [OF yes(3)] have l1: "log1 = log @ [GetCode a (hi - step)]" .
  have "log' = log @ (GetCode a (hi - step) # ps)" using ps l1 by simp
  moreover have "step * 2 ^ length (GetCode a (hi - step) # ps) < hi - lo + step"
    using ps(2) by (simp add: mult.assoc)
  ultimately show ?case using yes(2) yes(1) by (intro exI [of _ "GetCode a (hi - step) # ps"]) auto
qed

lemma descent_mono:
  assumes "getPublicClient cfg = Some cl" and "lo < B"
  shows "1 \<le> step \<Longrightarrow> B \<le> hi \<Longrightarrow>
     \<forall>b. lo < b \<and> b < hi \<longrightarrow> codeAt cl a b = Some (B \<le> b) \<Longrightarrow>
     \<exists>lo' hi' log'. descent a cfg lo hi step log = Some (Inr (lo', hi'), log') \<and>
        lo \<le> lo' \<and> lo' < B \<and> B \<le> hi' \<and> hi' \<le> hi"
proof (induction hi step log rule: descent_loop_induct [where a = a and cfg = cfg and lo = lo])
  case (stop hi step log)
  then show ?case using assms by (simp add: descent_stop)
next
  case (err hi step log e log1)
  then have "codeAt cl a (hi - step) = Some (B \<le> hi - step)" by simp
  from hasCodeAtX_answer [OF assms(1) this, of log] err(3) show ?case by simp
next
  case (no hi step log log1)
  then have "codeAt cl a (hi - step) = Some (B \<le> hi - step)" by simp
  from hasCodeAtX_answer [OF assms(1) this, of log] no(3) have "hi - step < B" by simp
  with no show ?case by (simp add: descent_no)
next
  case (yes hi step log log1)
  then have "codeAt cl a (hi - step) = Some (B \<le> hi - step)" by simp
  from hasCodeAtX_answer [OF assms(1) this, of log] yes(3) have b: "B \<le> hi - step" by simp
  have "\<forall>b. lo < b \<and> b < hi - step \<longrightarrow> codeAt cl a b = Some (B \<le> b)"
    using yes.prems(2) yes(1) by simp
  from yes.IH [OF b this] obtain lo' hi' log' where
    "descent a cfg lo (hi - step) (step * 2) log1 = Some (Inr (lo', hi'), log')"
    "lo \<le> lo'" "lo' < B" "B \<le> hi'" "hi' \<le> hi - step" by blast
  with yes(1,2,3) show ?case by (simp add: descent_yes)
qed

text \<open>The same for the binary search.\<close>

lemma bsearch_stop:
  "\<not> lo + 1 < hi \<Longrightarrow> bsearch a cfg lo hi log = (Inr (lo, hi), log)"
  by (subst bsearch.simps) simp

lemma bsearch_err:
  "lo + 1 < hi \<Longrightarrow> hasCodeAtX a (lo + bigint_div (hi - lo) 2) cfg log = (Inl e, log1) \<Longrightarrow>
     bsearch a cfg lo hi log = (Inl e, log1)"
  by (subst bsearch.simps) simp

lemma bsearch_yes:
  "lo + 1 < hi \<Longrightarrow> hasCodeAtX a (lo + bigint_div (hi - lo) 2) cfg log = (Inr True, log1) \<Longrightarrow>
     bsearch a cfg lo hi log = bsearch a cfg lo (lo + bigint_div (hi - lo) 2) log1"
  by (subst bsearch.simps) simp

lemma bsearch_no:
  "lo + 1 < hi \<Longrightarrow> hasCodeAtX a (lo + bigint_div (hi - lo) 2) cfg log = (Inr False, log1) \<Longrightarrow>
     bsearch a cfg lo hi log = bsearch a cfg (lo + bigint_div (hi - lo) 2) hi log1"
  by (subst bsearch.simps) simp

lemma bsearch_loop_induct [case_names stop err yes no]:
  assumes "\<And>lo hi log. \<not> lo + 1 < hi \<Longrightarrow> P lo hi log"
    and "\<And>lo hi log e log1. lo + 1 < hi \<Longrightarrow>
           hasCodeAtX a (lo + bigint_div (hi - lo) 2) cfg log = (Inl e, log1) \<Longrightarrow> P lo hi log"
    and "\<And>lo hi log log1. lo + 1 < hi \<Longrightarrow>
           hasCodeAtX a (lo + bigint_div (hi - lo) 2) cfg log = (Inr True, log1) \<Longrightarrow>
           P lo (lo + bigint_div (hi - lo) 2) log1 \<Longrightarrow> P lo hi log"
    and "\<And>lo hi log log1. lo + 1 < hi \<Longrightarrow>
           hasCodeAtX a (lo + bigint_div (hi - lo) 2) cfg log = (Inr False, log1) \<Longrightarrow>
           P (lo + bigint_div (hi - lo) 2) hi log1 \<Longrightarrow> P lo hi log"
  shows "P lo hi log"
proof -
  have "P lo hi log" if "nat (hi - lo) = n" for n lo hi log
    using that
  proof (induction n arbitrary: lo hi log rule: less_induct)
    case (less n lo hi log)
    show ?case
    proof (cases "lo + 1 < hi")
      case False
      then show ?thesis by (rule assms(1))
    next
      case True
      note mid = bsearch_mid [OF True]
      obtain r log1 where h: "hasCodeAtX a (lo + bigint_div (hi - lo) 2) cfg log = (r, log1)"
        by (cases "hasCodeAtX a (lo + bigint_div (hi - lo) 2) cfg log")
      show ?thesis
      proof (cases r)
        case (Inl e)
        with True h show ?thesis by (auto intro: assms(2))
      next
        case (Inr has)
        show ?thesis
        proof (cases has)
          case has: True
          have "nat (lo + bigint_div (hi - lo) 2 - lo) < n"
            using less.prems mid by auto
          from less.IH [OF this refl, of log1]
          have "P lo (lo + bigint_div (hi - lo) 2) log1" .
          with True h Inr has show ?thesis by (auto intro: assms(3))
        next
          case has: False
          have "nat (hi - (lo + bigint_div (hi - lo) 2)) < n"
            using less.prems mid by auto
          from less.IH [OF this refl, of log1]
          have "P (lo + bigint_div (hi - lo) 2) hi log1" .
          with True h Inr has show ?thesis by (auto intro: assms(4))
        qed
      qed
    qed
  qed
  then show ?thesis by simp
qed

lemma bsearch_range:
  "bsearch a cfg lo hi log = (Inr (lo', hi'), log') \<Longrightarrow>
     lo \<le> lo' \<and> hi' \<le> hi \<and> (lo < hi \<longrightarrow> hi' = lo' + 1)"
proof (induction lo hi log rule: bsearch_loop_induct [where a = a and cfg = cfg])
  case (stop lo hi log)
  then show ?case by (auto simp: bsearch_stop)
next
  case (err lo hi log e log1)
  then show ?case by (simp add: bsearch_err)
next
  case (yes lo hi log log1)
  with bsearch_mid [of lo hi] show ?case by (auto simp: bsearch_yes)
next
  case (no lo hi log log1)
  with bsearch_mid [of lo hi] show ?case by (auto simp: bsearch_no)
qed

lemma bigint_div_two: "0 \<le> d \<Longrightarrow> bigint_div d 2 = d div 2"
  by (cases "d = 0") (simp_all add: bigint_div_def)

lemma bsearch_probes:
  "bsearch a cfg lo hi log = (r, log') \<Longrightarrow>
     \<exists>ps. log' = log @ ps \<and>
       (if lo + 1 < hi then 2 ^ length ps \<le> 2 * (hi - lo) - 2 else ps = [])"
proof (induction lo hi log rule: bsearch_loop_induct [where a = a and cfg = cfg])
  case (stop lo hi log)
  then show ?case by (auto simp: bsearch_stop)
next
  case (err lo hi log e log1)
  from hasCodeAtX_log [OF err(2)] err show ?case
    by (auto simp: bsearch_err)
next
  case (yes lo hi log log1)
  let ?m = "lo + bigint_div (hi - lo) 2"
  from yes have "bsearch a cfg lo ?m log1 = (r, log')" by (simp add: bsearch_yes)
  from yes.IH [OF this] obtain ps where
    ps: "log' = log1 @ ps" "if lo + 1 < ?m then 2 ^ length ps \<le> 2 * (?m - lo) - 2 else ps = []"
    by blast
  have m: "?m - lo = (hi - lo) div 2" using yes(1) by (simp add: bigint_div_two)
  from hasCodeAtX_Inr_log [OF yes(2)] have l1: "log1 = log @ [GetCode a ?m]" .
  have "(2::int) ^ length (GetCode a ?m # ps) \<le> 2 * (hi - lo) - 2"
  proof (cases "lo + 1 < ?m")
    case True
    with ps(2) have "(2::int) ^ length ps \<le> 2 * ((hi - lo) div 2) - 2" using m by simp
    then have "(2::int) * 2 ^ length ps \<le> 2 * (2 * ((hi - lo) div 2) - 2)" by simp
    also have "\<dots> \<le> 2 * (hi - lo) - 2" by simp
    finally show ?thesis by simp
  next
    case False
    with ps(2) yes(1) show ?thesis by simp
  qed
  with ps(1) l1 yes(1) show ?case by (intro exI [of _ "GetCode a ?m # ps"]) simp
next
  case (no lo hi log log1)
  let ?m = "lo + bigint_div (hi - lo) 2"
  from no have "bsearch a cfg ?m hi log1 = (r, log')" by (simp add: bsearch_no)
  from no.IH [OF this] obtain ps where
    ps: "log' = log1 @ ps" "if ?m + 1 < hi then 2 ^ length ps \<le> 2 * (hi - ?m) - 2 else ps = []"
    by blast
  have m: "hi - ?m = (hi - lo) - (hi - lo) div 2" using no(1) by (simp add: bigint_div_two)
  from hasCodeAtX_Inr_log [OF no(2)] have l1: "log1 = log @ [GetCode a ?m]" .
  have "(2::int) ^ length (GetCode a ?m # ps) \<le> 2 * (hi - lo) - 2"
  proof (cases "?m + 1 < hi")
    case True
    with ps(2) have "(2::int) ^ length ps \<le> 2 * ((hi - lo) - (hi - lo) div 2) - 2"
      using m by simp
    then have "(2::int) * 2 ^ length ps \<le> 2 * (2 * ((hi - lo) - (hi - lo) div 2) - 2)" by simp
    also have "\<dots> \<le> 2 * (hi - lo) - 2" by presburger
    finally show ?thesis by simp
  next
    case False
    with ps(2) no(1) show ?thesis by simp
  qed
  with ps(1) l1 no(1) show ?case by (intro exI [of _ "GetCode a ?m # ps"]) simp
qed

lemma bsearch_mono:
  assumes "getPublicClient cfg = Some cl"
  shows "lo < B \<Longrightarrow> B \<le> hi \<Longrightarrow>
     \<forall>b. lo < b \<and> b < hi \<longrightarrow> codeAt cl a b = Some (B \<le> b) \<Longrightarrow>
     \<exists>log'. bsearch a cfg lo hi log = (Inr (B - 1, B), log')"
proof (induction lo hi log rule: bsearch_loop_induct [where a = a and cfg = cfg])
  case (stop lo hi log)
  then have "lo = B - 1" "hi = B" by simp_all
  with stop show ?case by (simp add: bsearch_stop)
next
  case (err lo hi log e log1)
  from err.prems(3) [rule_format, of "lo + bigint_div (hi - lo) 2"] bsearch_mid [OF err(1)]
  have "codeAt cl a (lo + bigint_div (hi - lo) 2) = Some (B \<le> lo + bigint_div (hi - lo) 2)"
    by simp
  from hasCodeAtX_answer [OF assms(1) this, of log] err(2) show ?case by simp
next
  case (yes lo hi log log1)
  let ?m = "lo + bigint_div (hi - lo) 2"
  note mid = bsearch_mid [OF yes(1)]
  from yes.prems(3) [rule_format, of ?m] mid
  have "codeAt cl a ?m = Some (B \<le> ?m)" by simp
  from hasCodeAtX_answer [OF assms(1) this, of log] yes(2) have b: "B \<le> ?m" by simp
  have "\<forall>b. lo < b \<and> b < ?m \<longrightarrow> codeAt cl a b = Some (B \<le> b)"
    using yes.prems(3) mid by simp
  from yes.IH [OF yes.prems(1) b this] yes(1,2) show ?case by (simp add: bsearch_yes)
next
  case (no lo hi log log1)
  let ?m = "lo + bigint_div (hi - lo) 2"
  note mid = bsearch_mid [OF no(1)]
  from no.prems(3) [rule_format, of ?m] mid
  have "codeAt cl a ?m = Some (B \<le> ?m)" by simp
  from hasCodeAtX_answer [OF assms(1) this, of log] no(2) have b: "?m < B" by simp
  have "\<forall>b. ?m < b \<and> b < hi \<longrightarrow> codeAt cl a b = Some (B \<le> b)"
    using no.prems(3) mid by simp
  from no.IH [OF b no.prems(2) this] no(1,2) show ?case by (simp add: bsearch_no)
qed

subsection \<open>The whole search on a monotone node\<close>

lemma find_head_ok:
  assumes "getPublicClient cfg = Some cl" and "getBlockNumber cl = Inr latest"
    and "codeAt cl a latest = Some True"
  shows "findDeploymentBlockRpcX a cfg floor log =
     (case (if floor > 0 then hasCodeAtX a floor cfg (log @ [GetBlockNumber, GetCode a latest])
            else (Inr False, log @ [GetBlockNumber, GetCode a latest])) of
        (Inl e, log2) \<Rightarrow> Some (Inl e, log2)
      | (Inr True, log2) \<Rightarrow> Some (Inr floor, log2)
      | (Inr False, log2) \<Rightarrow>
          (case descent a cfg floor latest 1 log2 of
             None \<Rightarrow> None
           | Some (Inl e, log3) \<Rightarrow> Some (Inl e, log3)
           | Some (Inr (lo, hi), log3) \<Rightarrow>
               (case bsearch a cfg lo hi log3 of
                  (Inl e, log4) \<Rightarrow> Some (Inl e, log4)
                | (Inr (lo', hi'), log4) \<Rightarrow> Some (Inr hi', log4))))"
  using hasCodeAtX_answer [OF assms(1,3), of "log @ [GetBlockNumber]"] assms(1,2)
  by (simp add: findDeploymentBlockRpcX_def)

lemma find_mono:
  assumes cl: "getPublicClient cfg = Some cl" and head: "getBlockNumber cl = Inr latest"
    and B: "floor < B" "B \<le> latest"
    and above: "\<forall>b. floor < b \<and> b \<le> latest \<longrightarrow> codeAt cl a b = Some (B \<le> b)"
    and at_floor: "0 < floor \<longrightarrow> codeAt cl a floor = Some False"
  shows "\<exists>log'. findDeploymentBlockRpcX a cfg floor log = Some (Inr B, log')"
proof -
  from above B have top: "codeAt cl a latest = Some True" by simp
  define log2 where
    "log2 = (if 0 < floor then log @ [GetBlockNumber, GetCode a latest, GetCode a floor]
             else log @ [GetBlockNumber, GetCode a latest])"
  have shortcut: "(if floor > 0 then hasCodeAtX a floor cfg (log @ [GetBlockNumber, GetCode a latest])
            else (Inr False, log @ [GetBlockNumber, GetCode a latest])) = (Inr False, log2)"
    using at_floor hasCodeAtX_answer [OF cl, of a floor False] by (simp add: log2_def)
  have inner: "\<forall>b. floor < b \<and> b < latest \<longrightarrow> codeAt cl a b = Some (B \<le> b)"
    using above by simp
  from descent_mono [OF cl B(1) _ B(2) inner, of 1 log2]
  obtain lo' hi' log3 where d: "descent a cfg floor latest 1 log2 = Some (Inr (lo', hi'), log3)"
    and r: "floor \<le> lo'" "lo' < B" "B \<le> hi'" "hi' \<le> latest" by auto
  have "\<forall>b. lo' < b \<and> b < hi' \<longrightarrow> codeAt cl a b = Some (B \<le> b)"
    using above r by simp
  from bsearch_mono [OF cl r(2,3) this, of log3]
  obtain log4 where "bsearch a cfg lo' hi' log3 = (Inr (B - 1, B), log4)" by blast
  with d shortcut show ?thesis
    by (simp add: find_head_ok [OF cl head top])
qed

subsection \<open>The first block with code\<close>

text \<open>
  Claim C1. Let the node answer every block from \<open>0\<close> to the chain head
  \<open>latest\<close>, with no code below a block \<open>B\<close> and code from \<open>B\<close> on, where
  \<open>0 < B \<le> latest\<close> (so there is code at the head and none at block \<open>0\<close>). Then
  \<^verbatim>\<open>findDeploymentBlockRpcX\<close> with floor \<open>0\<close> returns \<open>B\<close>, and \<open>B\<close> is the only
  block up to the head with no code just below it and code at it. The witness is
  the scenario with head 1,000,000 and code from block 500,000 on.
\<close>

theorem first_code_block_found:
  assumes "getPublicClient cfg = Some cl" and "getBlockNumber cl = Inr latest"
    and "0 < B" and "B \<le> latest"
    and "\<forall>b. 0 \<le> b \<and> b \<le> latest \<longrightarrow> codeAt cl a b = Some (B \<le> b)"
  shows "(\<exists>log'. findDeploymentBlockRpcX a cfg 0 log = Some (Inr B, log')) \<and>
         codeAt cl a (B - 1) = Some False \<and> codeAt cl a B = Some True \<and>
         (\<forall>B'. 0 < B' \<and> B' \<le> latest \<and> codeAt cl a (B' - 1) = Some False \<and>
                codeAt cl a B' = Some True \<longrightarrow> B' = B)"
proof -
  have "\<exists>log'. findDeploymentBlockRpcX a cfg 0 log = Some (Inr B, log')"
    using assms by (intro find_mono [where cl = cl and latest = latest]) simp_all
  moreover have "codeAt cl a (B - 1) = Some False" "codeAt cl a B = Some True"
    using assms(3,4,5) by simp_all
  moreover have "B' = B"
    if "0 < B'" "B' \<le> latest" "codeAt cl a (B' - 1) = Some False" "codeAt cl a B' = Some True"
    for B'
  proof -
    from assms(5) that(1,2) have "codeAt cl a (B' - 1) = Some (B \<le> B' - 1)"
      "codeAt cl a B' = Some (B \<le> B')" by simp_all
    with that(3,4) show ?thesis by simp
  qed
  ultimately show ?thesis by blast
qed

theorem first_code_block_found_witness:
  "\<exists>log'. findDeploymentBlockRpcX ''0x5fbdb2315678afecb367f032d93f642f64180aa3''
      (Config (Some \<lparr>chain_id = Some 1, getBlockNumber = Inr 1000000,
         getCode = (\<lambda>a b. Inr (if 500000 \<le> b then Some ''0x6080'' else None))\<rparr>)) 0 []
     = Some (Inr 500000, log')"
  using first_code_block_found [of
      "Config (Some \<lparr>chain_id = Some 1, getBlockNumber = Inr 1000000,
         getCode = (\<lambda>a b. Inr (if 500000 \<le> b then Some ''0x6080'' else None))\<rparr>)"
      "\<lparr>chain_id = Some 1, getBlockNumber = Inr 1000000,
         getCode = (\<lambda>a b. Inr (if 500000 \<le> b then Some ''0x6080'' else None))\<rparr>"
      1000000 500000 "''0x5fbdb2315678afecb367f032d93f642f64180aa3''" "[]"]
  by (simp add: codeAt_def isCode_def)

subsection \<open>The head check and the floor shortcut\<close>

text \<open>
  Claim C3. When the node reports no code at the chain head, the search fails with
  the \<^verbatim>\<open>No code for ... at latest block ...\<close> error, and the node has been asked
  exactly twice: for the head, and for the code at the head.
\<close>

theorem not_deployed_at_head:
  assumes "getPublicClient cfg = Some cl" and "getBlockNumber cl = Inr latest"
    and "codeAt cl a latest = Some False"
  shows "findDeploymentBlockRpcX a cfg floor log =
           Some (Inl (NoCode a latest (case chain_id cl of None \<Rightarrow> 0 | Some i \<Rightarrow> i)),
                 log @ [GetBlockNumber, GetCode a latest])"
  using hasCodeAtX_answer [OF assms(1,3), of "log @ [GetBlockNumber]"] assms(1,2)
  by (simp add: findDeploymentBlockRpcX_def)

theorem not_deployed_at_head_witness:
  "findDeploymentBlockRpcX ''0xabc''
     (Config (Some \<lparr>chain_id = Some 5, getBlockNumber = Inr 100,
        getCode = (\<lambda>a b. Inr (Some ''0x''))\<rparr>)) 7 []
   = Some (Inl (NoCode ''0xabc'' 100 5), [GetBlockNumber, GetCode ''0xabc'' 100])"
  using not_deployed_at_head [of
      "Config (Some \<lparr>chain_id = Some 5, getBlockNumber = Inr 100,
        getCode = (\<lambda>a b. Inr (Some ''0x''))\<rparr>)"
      "\<lparr>chain_id = Some 5, getBlockNumber = Inr 100,
        getCode = (\<lambda>a b. Inr (Some ''0x''))\<rparr>"
      100 "''0xabc''" 7 "[]"]
  by (simp add: codeAt_def isCode_def)

text \<open>
  Claim C2, as the source has it. The shortcut is guarded by \<^verbatim>\<open>floor > 0n\<close>: for
  a positive floor with code at it (and code at the head), the search returns the
  floor after exactly one probe beyond the head check, whatever the node holds
  below the floor.
\<close>

theorem floor_shortcut:
  assumes "getPublicClient cfg = Some cl" and "getBlockNumber cl = Inr latest"
    and "codeAt cl a latest = Some True"
    and "0 < floor" and "codeAt cl a floor = Some True"
  shows "findDeploymentBlockRpcX a cfg floor log =
           Some (Inr floor, log @ [GetBlockNumber, GetCode a latest, GetCode a floor])"
  using hasCodeAtX_answer [OF assms(1,5), of "log @ [GetBlockNumber, GetCode a latest]"] assms(4)
  by (simp add: find_head_ok [OF assms(1,2,3)])

theorem floor_shortcut_witness:
  "findDeploymentBlockRpcX ''0xabc''
     (Config (Some \<lparr>chain_id = Some 1, getBlockNumber = Inr 100,
        getCode = (\<lambda>a b. Inr (if 20 \<le> b then Some ''0x6080'' else None))\<rparr>)) 50 []
   = Some (Inr 50, [GetBlockNumber, GetCode ''0xabc'' 100, GetCode ''0xabc'' 50])"
  using floor_shortcut [of
      "Config (Some \<lparr>chain_id = Some 1, getBlockNumber = Inr 100,
        getCode = (\<lambda>a b. Inr (if 20 \<le> b then Some ''0x6080'' else None))\<rparr>)"
      "\<lparr>chain_id = Some 1, getBlockNumber = Inr 100,
        getCode = (\<lambda>a b. Inr (if 20 \<le> b then Some ''0x6080'' else None))\<rparr>"
      100 "''0xabc''" 50 "[]"]
  by (simp add: codeAt_def isCode_def)

text \<open>
  With floor \<open>0\<close> the shortcut is skipped even when block \<open>0\<close> has code: on a
  chain with head \<open>3\<close> and code at every block the search probes blocks \<open>2\<close> and
  \<open>1\<close> and returns \<open>1\<close>, not the floor.
\<close>

theorem floor_zero_counterexample:
  "codeAt \<lparr>chain_id = Some 1, getBlockNumber = Inr 3,
            getCode = (\<lambda>a b. Inr (Some ''0x6080''))\<rparr> ''0xabc'' 0 = Some True \<and>
   findDeploymentBlockRpcX ''0xabc''
     (Config (Some \<lparr>chain_id = Some 1, getBlockNumber = Inr 3,
        getCode = (\<lambda>a b. Inr (Some ''0x6080''))\<rparr>)) 0 []
   = Some (Inr 1, [GetBlockNumber, GetCode ''0xabc'' 3, GetCode ''0xabc'' 2, GetCode ''0xabc'' 1])"
  by (simp add: codeAt_def isCode_def findDeploymentBlockRpcX_def hasCodeAtX_def
      descent.simps bsearch.simps bigint_div_def)

subsection \<open>The range of the result\<close>

lemma find_range:
  assumes cl: "getPublicClient cfg = Some cl" and head: "getBlockNumber cl = Inr latest"
    and lt: "floor < latest"
    and no_shortcut: "\<not> (0 < floor \<and> codeAt cl a floor = Some True)"
  shows "\<exists>r log'. findDeploymentBlockRpcX a cfg floor log = Some (r, log') \<and>
           (\<forall>v. r = Inr v \<longrightarrow> floor < v \<and> v \<le> latest)"
proof (cases "codeAt cl a latest = Some True")
  case False
  obtain r0 log0 where h0: "hasCodeAtX a latest cfg (log @ [GetBlockNumber]) = (r0, log0)"
    by (cases "hasCodeAtX a latest cfg (log @ [GetBlockNumber])")
  with False hasCodeAtX_codeAt [OF cl, of a latest "log @ [GetBlockNumber]" True log0]
  have "r0 \<noteq> Inr True" by auto
  with h0 cl head show ?thesis
    by (cases r0) (auto simp: findDeploymentBlockRpcX_def)
next
  case True
  note unfold = find_head_ok [OF cl head True, of floor log]
  let ?log1 = "log @ [GetBlockNumber, GetCode a latest]"
  obtain r2 log2 where h2:
    "(if floor > 0 then hasCodeAtX a floor cfg ?log1 else (Inr False, ?log1)) = (r2, log2)"
    by (cases "if floor > 0 then hasCodeAtX a floor cfg ?log1 else (Inr False, ?log1)")
  have not_true: "r2 \<noteq> Inr True"
    using h2 no_shortcut hasCodeAtX_codeAt [OF cl, of a floor ?log1 True log2]
    by (auto split: if_splits)
  show ?thesis
  proof (cases r2)
    case (Inl e)
    with h2 unfold show ?thesis by simp
  next
    case (Inr has)
    with not_true have r2: "r2 = Inr False" by simp
    from descent_total [of 1 a cfg floor latest log2]
    obtain r3 log3 where d: "descent a cfg floor latest 1 log2 = Some (r3, log3)" by auto
    show ?thesis
    proof (cases r3)
      case (Inl e)
      with h2 r2 d unfold show ?thesis by simp
    next
      case (Inr p)
      obtain lo' hi' where p: "p = (lo', hi')" by (cases p)
      from descent_range [of 1 a cfg floor latest log2 lo' hi' log3] d Inr p lt
      have r: "floor \<le> lo'" "hi' \<le> latest" "lo' < hi'" by simp_all
      obtain r4 log4 where b: "bsearch a cfg lo' hi' log3 = (r4, log4)"
        by (cases "bsearch a cfg lo' hi' log3")
      show ?thesis
      proof (cases r4)
        case (Inl e)
        with h2 r2 d Inr p b unfold show ?thesis by simp
      next
        case (Inr q)
        obtain lo'' hi'' where q: "q = (lo'', hi'')" by (cases q)
        from bsearch_range [of a cfg lo' hi' log3 lo'' hi'' log4] b Inr q r
        have "lo' \<le> lo''" "hi'' \<le> hi'" "hi'' = lo'' + 1" by simp_all
        with r have "floor < hi''" "hi'' \<le> latest" by simp_all
        with h2 r2 d \<open>r3 = Inr p\<close> p b Inr q unfold show ?thesis by simp
      qed
    qed
  qed
qed

text \<open>
  Claim C10, as the source has it. When the floor lies strictly below the chain head
  and the shortcut does not fire (the floor is not positive, or the node does not
  report code at it), the search returns, and a block it returns lies in
  \<open>floor < result \<le> latest\<close>. In particular, on a chain whose head is at least
  \<open>1\<close> and where every block above \<open>0\<close> has code, floor \<open>0\<close> gives block \<open>1\<close>,
  whatever block \<open>0\<close> holds.
\<close>

theorem result_above_floor:
  assumes "getPublicClient cfg = Some cl" and "getBlockNumber cl = Inr latest"
  shows "(floor < latest \<and> \<not> (0 < floor \<and> codeAt cl a floor = Some True) \<longrightarrow>
            (\<exists>r log'. findDeploymentBlockRpcX a cfg floor log = Some (r, log') \<and>
               (\<forall>v. r = Inr v \<longrightarrow> floor < v \<and> v \<le> latest))) \<and>
         (1 \<le> latest \<and> (\<forall>b. 0 < b \<and> b \<le> latest \<longrightarrow> codeAt cl a b = Some True) \<longrightarrow>
            (\<exists>log'. findDeploymentBlockRpcX a cfg 0 log = Some (Inr 1, log')))"
proof (intro conjI impI)
  assume "floor < latest \<and> \<not> (0 < floor \<and> codeAt cl a floor = Some True)"
  with find_range [OF assms, of floor a log]
  show "\<exists>r log'. findDeploymentBlockRpcX a cfg floor log = Some (r, log') \<and>
               (\<forall>v. r = Inr v \<longrightarrow> floor < v \<and> v \<le> latest)" by blast
next
  assume h: "1 \<le> latest \<and> (\<forall>b. 0 < b \<and> b \<le> latest \<longrightarrow> codeAt cl a b = Some True)"
  then have "\<forall>b. 0 < b \<and> b \<le> latest \<longrightarrow> codeAt cl a b = Some (1 \<le> b)" by auto
  with h show "\<exists>log'. findDeploymentBlockRpcX a cfg 0 log = Some (Inr 1, log')"
    by (intro find_mono [OF assms]) simp_all
qed

theorem result_above_floor_witness:
  "(\<exists>r log'. findDeploymentBlockRpcX ''0xabc''
       (Config (Some \<lparr>chain_id = Some 1, getBlockNumber = Inr 100,
          getCode = (\<lambda>a b. Inr (Some ''0x6080''))\<rparr>)) 0 [] = Some (r, log') \<and>
       (\<forall>v. r = Inr v \<longrightarrow> 0 < v \<and> v \<le> 100)) \<and>
   (\<exists>log'. findDeploymentBlockRpcX ''0xabc''
       (Config (Some \<lparr>chain_id = Some 1, getBlockNumber = Inr 100,
          getCode = (\<lambda>a b. Inr (Some ''0x6080''))\<rparr>)) 0 [] = Some (Inr 1, log'))"
  using result_above_floor [of
      "Config (Some \<lparr>chain_id = Some 1, getBlockNumber = Inr 100,
          getCode = (\<lambda>a b. Inr (Some ''0x6080''))\<rparr>)"
      "\<lparr>chain_id = Some 1, getBlockNumber = Inr 100,
          getCode = (\<lambda>a b. Inr (Some ''0x6080''))\<rparr>"
      100 0 "''0xabc''" "[]"]
  by (simp add: codeAt_def isCode_def)

text \<open>
  On a chain whose head is the genesis block, with code at it, floor \<open>0\<close> does not
  fire the shortcut and the search returns block \<open>0\<close>: the result is not above
  the floor.
\<close>

theorem genesis_head_counterexample:
  "findDeploymentBlockRpcX ''0xabc''
     (Config (Some \<lparr>chain_id = Some 1, getBlockNumber = Inr 0,
        getCode = (\<lambda>a b. Inr (Some ''0x6080''))\<rparr>)) 0 []
   = Some (Inr 0, [GetBlockNumber, GetCode ''0xabc'' 0])"
  by (simp add: isCode_def findDeploymentBlockRpcX_def hasCodeAtX_def
      descent.simps bsearch.simps)

subsection \<open>Termination and the number of probes\<close>

lemma descent_first_probes:
  assumes "descent a cfg lo hi 1 log = Some (r, log')"
  shows "\<exists>ps. log' = log @ ps \<and> (2::int) ^ length ps \<le> max 1 (hi - lo) \<and>
           (hi \<le> lo \<longrightarrow> ps = [])"
proof -
  from descent_probes [OF _ assms] obtain ps where
    ps: "log' = log @ ps" "if lo < hi then 1 * 2 ^ length ps < hi - lo + 1 else ps = []"
    by auto
  show ?thesis
  proof (cases "lo < hi")
    case True
    with ps(2) have "(2::int) ^ length ps \<le> hi - lo" by simp
    with ps(1) True show ?thesis by auto
  next
    case False
    with ps show ?thesis by simp
  qed
qed

lemma bsearch_all_probes:
  assumes "bsearch a cfg lo hi log = (r, log')"
  shows "\<exists>ps. log' = log @ ps \<and> (2::int) ^ length ps \<le> max 1 (2 * (hi - lo)) \<and>
           (hi \<le> lo \<longrightarrow> ps = [])"
proof -
  from bsearch_probes [OF assms] obtain ps where
    ps: "log' = log @ ps" "if lo + 1 < hi then 2 ^ length ps \<le> 2 * (hi - lo) - 2 else ps = []"
    by auto
  show ?thesis
  proof (cases "lo + 1 < hi")
    case True
    with ps(2) have "(2::int) ^ length ps \<le> 2 * (hi - lo)" by simp
    with ps(1) True show ?thesis by auto
  next
    case False
    with ps show ?thesis by simp
  qed
qed

lemma two_loops_bound:
  assumes "(2::int) ^ m \<le> max 1 g" and "g \<le> 0 \<longrightarrow> m = 0"
    and "(2::int) ^ n \<le> max 1 (2 * g')" and "g' \<le> 0 \<longrightarrow> n = 0" and "g' \<le> g"
  shows "(2::int) ^ (m + n) \<le> max 1 (2 * g\<^sup>2)"
proof (cases "g \<le> 0")
  case True
  with assms show ?thesis by simp
next
  case False
  then have g: "1 \<le> g" by simp
  with assms(1) have m: "(2::int) ^ m \<le> g" by simp
  from assms(3,5) g have n: "(2::int) ^ n \<le> 2 * g" by (cases "g' \<le> 0") auto
  have "(2::int) ^ (m + n) = 2 ^ m * 2 ^ n" by (simp add: power_add)
  also have "\<dots> \<le> g * (2 * g)" using m n g by (intro mult_mono) simp_all
  also have "\<dots> = 2 * g\<^sup>2" by (simp add: power2_eq_square)
  finally show ?thesis by simp
qed

lemma find_probes:
  "\<exists>r ps. findDeploymentBlockRpcX a cfg floor log = Some (r, log @ ps) \<and>
     (\<forall>cl latest. getPublicClient cfg = Some cl \<and> getBlockNumber cl = Inr latest \<longrightarrow>
        (2::int) ^ (length ps - 3) \<le> max 1 (2 * (latest - floor)\<^sup>2))"
proof (cases "getPublicClient cfg")
  case None
  then show ?thesis by (simp add: findDeploymentBlockRpcX_def)
next
  case (Some cl)
  show ?thesis
  proof (cases "getBlockNumber cl")
    case (Inl e)
    with Some show ?thesis by (simp add: findDeploymentBlockRpcX_def)
  next
    case (Inr latest)
    let ?bound = "max 1 (2 * (latest - floor)\<^sup>2)"
    have short: "(2::int) ^ (length ps - 3) \<le> ?bound" if "length ps \<le> 3" for ps :: "call list"
      using that by simp
    have goal: ?thesis
      if "findDeploymentBlockRpcX a cfg floor log = Some (r, log @ ps)"
        and "(2::int) ^ (length ps - 3) \<le> ?bound" for r ps
      using that Some Inr by (intro exI [of _ r] exI [of _ ps]) simp
    obtain r0 log0 where h0: "hasCodeAtX a latest cfg (log @ [GetBlockNumber]) = (r0, log0)"
      by (cases "hasCodeAtX a latest cfg (log @ [GetBlockNumber])")
    from hasCodeAtX_log [OF h0] obtain p0 where
      p0: "log0 = log @ p0" "length p0 \<le> 2" by auto
    show ?thesis
    proof (cases "r0 = Inr True")
      case False
      with h0 Some Inr p0(1)
      have "\<exists>r. findDeploymentBlockRpcX a cfg floor log = Some (r, log @ p0)"
        by (cases r0) (auto simp: findDeploymentBlockRpcX_def)
      with p0(2) show ?thesis by (auto intro: goal short)
    next
      case True
      with h0 hasCodeAtX_codeAt [OF Some, of a latest "log @ [GetBlockNumber]" True log0]
      have top: "codeAt cl a latest = Some True" by simp
      note unfold = find_head_ok [OF Some Inr top, of floor log]
      let ?log1 = "log @ [GetBlockNumber, GetCode a latest]"
      obtain r2 log2 where h2:
        "(if floor > 0 then hasCodeAtX a floor cfg ?log1 else (Inr False, ?log1)) = (r2, log2)"
        by (cases "if floor > 0 then hasCodeAtX a floor cfg ?log1 else (Inr False, ?log1)")
      have "\<exists>p2. log2 = log @ p2 \<and> length p2 \<le> 3"
      proof (cases "floor > 0")
        case True
        with h2 have "hasCodeAtX a floor cfg ?log1 = (r2, log2)" by simp
        from hasCodeAtX_log [OF this] show ?thesis by auto
      next
        case False
        with h2 show ?thesis by auto
      qed
      then obtain p2 where p2: "log2 = log @ p2" "length p2 \<le> 3" by blast
      show ?thesis
      proof (cases "r2 = Inr False")
        case False
        with h2 unfold p2(1)
        have "\<exists>r. findDeploymentBlockRpcX a cfg floor log = Some (r, log @ p2)"
          by (cases r2) auto
        with p2(2) show ?thesis by (auto intro: goal short)
      next
        case r2: True
        from descent_total [of 1 a cfg floor latest log2]
        obtain r3 log3 where d: "descent a cfg floor latest 1 log2 = Some (r3, log3)" by auto
        from descent_first_probes [OF d] obtain ps1 where
          ps1: "log3 = log2 @ ps1" "(2::int) ^ length ps1 \<le> max 1 (latest - floor)"
            "latest \<le> floor \<longrightarrow> ps1 = []" by blast
        show ?thesis
        proof (cases r3)
          case (Inl e)
          with h2 r2 d unfold p2(1) ps1(1)
          have f: "findDeploymentBlockRpcX a cfg floor log = Some (Inl e, log @ (p2 @ ps1))"
            by simp
          have b1: "(2::int) ^ (length ps1 + 0) \<le> ?bound"
            using ps1(2,3) by (intro two_loops_bound [where g' = "latest - floor"]) auto
          have b2: "(2::int) ^ (length (p2 @ ps1) - 3) \<le> 2 ^ (length ps1 + 0)"
            using p2(2) by (intro power_increasing) simp_all
          from f order_trans [OF b2 b1] show ?thesis by (rule goal)
        next
          case (Inr p)
          obtain lo' hi' where p: "p = (lo', hi')" by (cases p)
          from descent_range [of 1 a cfg floor latest log2 lo' hi' log3] d Inr p
          have rg: "floor \<le> lo'" "hi' \<le> latest" by simp_all
          obtain r4 log4 where b: "bsearch a cfg lo' hi' log3 = (r4, log4)"
            by (cases "bsearch a cfg lo' hi' log3")
          from bsearch_all_probes [OF b] obtain ps2 where
            ps2: "log4 = log3 @ ps2" "(2::int) ^ length ps2 \<le> max 1 (2 * (hi' - lo'))"
              "hi' \<le> lo' \<longrightarrow> ps2 = []" by blast
          from h2 r2 d Inr p b unfold p2(1) ps1(1) ps2(1)
          have "\<exists>r. findDeploymentBlockRpcX a cfg floor log = Some (r, log @ (p2 @ ps1 @ ps2))"
            by (cases r4) auto
          then obtain r where
            f: "findDeploymentBlockRpcX a cfg floor log = Some (r, log @ (p2 @ ps1 @ ps2))" ..
          have b1: "(2::int) ^ (length ps1 + length ps2) \<le> ?bound"
            using ps1(2,3) ps2(2,3) rg
            by (intro two_loops_bound [where g' = "hi' - lo'"]) auto
          have b2: "(2::int) ^ (length (p2 @ ps1 @ ps2) - 3) \<le> 2 ^ (length ps1 + length ps2)"
            using p2(2) by (intro power_increasing) simp_all
          from f order_trans [OF b2 b1] show ?thesis by (rule goal)
        qed
      qed
    qed
  qed
qed

text \<open>
  Claim C9. Whatever the node answers, block by block (code, no code or a failure,
  in any pattern), and for every floor with \<open>0 \<le> floor \<le> latest\<close>:
  \<^item> the search returns, and beyond the three requests of the head check and the
    floor check it sends \<open>n\<close> probes with \<open>2 ^ n \<le> max 1 (2 * (latest - floor)\<^sup>2)\<close>;
  \<^item> the descent from \<open>(floor, latest)\<close> with step \<open>1\<close> returns after \<open>m\<close> probes
    with \<open>2 ^ m \<le> max 1 (latest - floor)\<close>;
  \<^item> while \<open>lo + 1 < hi\<close> the midpoint lies strictly between \<open>lo\<close> and \<open>hi\<close>, so
    either assignment shrinks the interval, and a binary search started with
    \<open>lo < hi\<close> that meets no failure ends with \<open>hi = lo + 1\<close> inside the interval
    it started from.
  That the search returns for every configuration, also without a client or a
  head, is lemma \<open>find_probes\<close>.
\<close>

theorem search_terminates:
  assumes "getPublicClient cfg = Some cl" and "getBlockNumber cl = Inr latest"
    and "0 \<le> floor" and "floor \<le> latest"
  shows "(\<exists>r ps. findDeploymentBlockRpcX a cfg floor log = Some (r, log @ ps) \<and>
            (2::int) ^ (length ps - 3) \<le> max 1 (2 * (latest - floor)\<^sup>2)) \<and>
         (\<exists>r ps. descent a cfg floor latest 1 log = Some (r, log @ ps) \<and>
            (2::int) ^ length ps \<le> max 1 (latest - floor)) \<and>
         (\<forall>lo hi. lo + 1 < hi \<longrightarrow>
            lo < lo + bigint_div (hi - lo) 2 \<and> lo + bigint_div (hi - lo) 2 < hi) \<and>
         (\<forall>lo hi lg lo' hi' lg'.
            lo < hi \<and> bsearch a cfg lo hi lg = (Inr (lo', hi'), lg') \<longrightarrow>
              hi' = lo' + 1 \<and> lo \<le> lo' \<and> hi' \<le> hi)"
proof (intro conjI allI impI)
  from find_probes [of a cfg floor log] assms(1,2)
  show "\<exists>r ps. findDeploymentBlockRpcX a cfg floor log = Some (r, log @ ps) \<and>
            (2::int) ^ (length ps - 3) \<le> max 1 (2 * (latest - floor)\<^sup>2)"
    by blast
next
  from descent_total [of 1 a cfg floor latest log]
  obtain r log' where d: "descent a cfg floor latest 1 log = Some (r, log')" by auto
  from descent_first_probes [OF d] d
  show "\<exists>r ps. descent a cfg floor latest 1 log = Some (r, log @ ps) \<and>
            (2::int) ^ length ps \<le> max 1 (latest - floor)"
    by blast
next
  fix lo hi :: int
  assume "lo + 1 < hi"
  from bsearch_mid [OF this]
  show "lo < lo + bigint_div (hi - lo) 2" and "lo + bigint_div (hi - lo) 2 < hi"
    by simp_all
next
  fix lo hi lo' hi' :: int and lg lg' :: "call list"
  assume "lo < hi \<and> bsearch a cfg lo hi lg = (Inr (lo', hi'), lg')"
  with bsearch_range [of a cfg lo hi lg lo' hi' lg']
  show "hi' = lo' + 1" and "lo \<le> lo'" and "hi' \<le> hi"
    by simp_all
qed

text \<open>
  The witness is a node that is not monotone: code at the even blocks only,
  under a head at block \<open>8\<close>.
\<close>

theorem search_terminates_witness:
  "(\<exists>r ps. findDeploymentBlockRpcX ''0xabc''
       (Config (Some \<lparr>chain_id = Some 1, getBlockNumber = Inr 8,
          getCode = (\<lambda>a b. Inr (if even b then Some ''0x6080'' else None))\<rparr>)) 0 []
       = Some (r, ps) \<and> (2::int) ^ (length ps - 3) \<le> 128) \<and>
   (\<exists>r ps. descent ''0xabc''
       (Config (Some \<lparr>chain_id = Some 1, getBlockNumber = Inr 8,
          getCode = (\<lambda>a b. Inr (if even b then Some ''0x6080'' else None))\<rparr>)) 0 8 1 []
       = Some (r, ps) \<and> (2::int) ^ length ps \<le> 8)"
  using search_terminates [of
      "Config (Some \<lparr>chain_id = Some 1, getBlockNumber = Inr 8,
          getCode = (\<lambda>a b. Inr (if even b then Some ''0x6080'' else None))\<rparr>)"
      "\<lparr>chain_id = Some 1, getBlockNumber = Inr 8,
          getCode = (\<lambda>a b. Inr (if even b then Some ''0x6080'' else None))\<rparr>"
      8 0 "''0xabc''" "[]"]
  by simp

section \<open>Keys and stored values\<close>

subsection \<open>Lower case\<close>

lemma lowerChar_idem: "lowerChar (lowerChar c) = lowerChar c"
  by (auto simp: lowerChar_def Let_def)

lemma toLowerCase_idem: "toLowerCase (toLowerCase s) = toLowerCase s"
  by (simp add: toLowerCase_def lowerChar_idem)

subsection \<open>Decimal text read back\<close>















subsection \<open>The two keys\<close>

text \<open>
  Claim C6. Two addresses with the same lower-case form (they differ in letter case
  only) get the same query key and the same storage key, for every chain id and
  floor; in particular an address and its lower-case form do. The storage key is
  the namespace tag \<^verbatim>\<open>wagmi-extended:deploymentBlock\<close>, the chain id in
  decimal, the lower-case address and the floor in decimal, joined by colons.
\<close>

theorem keys_canonical:
  assumes "toLowerCase a = toLowerCase b"
  shows "deploymentBlockKey c (Some a) f = deploymentBlockKey c (Some b) f \<and>
         lsKeyForDeploymentBlock n a f = lsKeyForDeploymentBlock n b f \<and>
         deploymentBlockKey c (Some a) f = deploymentBlockKey c (Some (toLowerCase a)) f \<and>
         lsKeyForDeploymentBlock n a f = lsKeyForDeploymentBlock n (toLowerCase a) f \<and>
         lsKeyForDeploymentBlock n a f =
           joinWith '':'' [''wagmi-extended:deploymentBlock'', numberToString n,
                          toLowerCase a, bigintToString f]"
  using assms
  by (simp add: deploymentBlockKey_def lsKeyForDeploymentBlock_def toLowerCase_idem)

theorem keys_canonical_witness:
  "deploymentBlockKey (Some 1) (Some ''0x5FbDB2315678afecb367f032d93F642f64180aa3'') 0 =
     deploymentBlockKey (Some 1) (Some ''0x5fbdb2315678AFECB367f032d93f642f64180AA3'') 0 \<and>
   lsKeyForDeploymentBlock 1 ''0x5FbDB2315678afecb367f032d93F642f64180aa3'' 0 =
     lsKeyForDeploymentBlock 1 ''0x5fbdb2315678AFECB367f032d93f642f64180AA3'' 0 \<and>
   lsKeyForDeploymentBlock 1 ''0x5fbdb2315678AFECB367f032d93f642f64180AA3'' 0 =
     ''wagmi-extended:deploymentBlock:1:0x5fbdb2315678afecb367f032d93f642f64180aa3:0''"
proof -
  have same: "toLowerCase ''0x5FbDB2315678afecb367f032d93F642f64180aa3'' =
              toLowerCase ''0x5fbdb2315678AFECB367f032d93f642f64180AA3''"
    by code_simp
  have literal: "lsKeyForDeploymentBlock 1 ''0x5fbdb2315678AFECB367f032d93f642f64180AA3'' 0 =
     ''wagmi-extended:deploymentBlock:1:0x5fbdb2315678afecb367f032d93f642f64180aa3:0''"
    by code_simp
  from keys_canonical [OF same, of "Some 1" 0 1] literal show ?thesis
    by blast
qed

section \<open>The two cache tiers\<close>

subsection \<open>Reading and writing the storage\<close>




lemma read_empty:
  "localStorage w = Some emptyStorage \<Longrightarrow>
     readDeploymentBlockFromLS chainId address floor w = None"
  by (simp add: readDeploymentBlockFromLS_def readDeploymentBlockFromLS_try_def getItem_def
      emptyStorage_def)







subsection \<open>A hit in the storage\<close>






subsection \<open>A failed search\<close>

lemma queryFn_failure:
  assumes "queryFn address floor wagmiConfig disableLocalStorage w = Some (Inl e, w')"
  shows "w' = w\<lparr>calls := calls w'\<rparr>"
  using assms
  by (auto simp: queryFn_def split: option.splits if_splits sum.splits prod.splits)

lemma fetchQuery_failure:
  assumes "fetchQuery qc key fn w = Some (Inl e, w')"
  shows "(queryKeyHashFn w qc key = None \<and> e = TypeError \<and> w' = w) \<or>
         (\<exists>h. queryKeyHashFn w qc key = Some h \<and> queryData w qc h = None \<and>
              fn w = Some (Inl e, w'))"
  using assms
  by (auto simp: fetchQuery_def split: option.splits sum.splits prod.splits)

lemma fetch_failure:
  assumes "fetchDeploymentBlockX address floor options queryClient wagmiConfig w = Some (Inl e, w')"
  shows "w' = w\<lparr>calls := calls w'\<rparr>"
proof (cases "address = []")
  case True
  with assms show ?thesis by (simp add: fetchDeploymentBlockX_def)
next
  case ne: False
  show ?thesis
  proof (cases "ensureClientAndConfig queryClient wagmiConfig w")
    case (Inl e')
    with assms ne show ?thesis by (simp add: fetchDeploymentBlockX_def)
  next
    case (Inr p)
    obtain qc cfg where p: "p = (qc, cfg)" by (cases p)
    show ?thesis
    proof (cases "orElse (optChainId options) (chainIdOf (getPublicClient cfg))")
      case None
      with assms ne Inr p show ?thesis by (simp add: fetchDeploymentBlockX_def)
    next
      case (Some chainId)
      show ?thesis
      proof (cases "chainId = 0")
        case True
        with assms ne Inr p Some show ?thesis by (simp add: fetchDeploymentBlockX_def)
      next
        case nz: False
        let ?key = "deploymentBlockKey (Some chainId) (Some address) floor"
        let ?d = "case optDisableLocalStorage options of None \<Rightarrow> False | Some b \<Rightarrow> b"
        let ?seeded = "if \<not> ?d
                   then (case readDeploymentBlockFromLS chainId address floor w of
                           None \<Rightarrow> Inr w
                         | Some fromLS \<Rightarrow> setQueryData qc ?key fromLS w)
                   else Inr w"
        show ?thesis
        proof (cases ?seeded)
          case (Inl e1)
          with assms ne Inr p Some nz have "w' = w"
            by (simp add: fetchDeploymentBlockX_def Let_def)
          then show ?thesis by simp
        next
          case w1: (Inr w1)
          with assms ne Inr p Some nz
          have f: "fetchQuery qc ?key (queryFn address floor (Some cfg) ?d) w1 = Some (Inl e, w')"
            by (simp add: fetchDeploymentBlockX_def Let_def getDeploymentBlockQueryOptionsX_def)
          have seed: "w1 = w \<or>
            (\<exists>h v. queryKeyHashFn w qc ?key = Some h \<and>
                   w1 = w\<lparr>queryData := (queryData w)(qc := (queryData w qc)(h \<mapsto> v))\<rparr>)"
            using w1 by (auto simp: setQueryData_def split: option.splits if_splits)
          from fetchQuery_failure [OF f] show ?thesis
          proof
            assume "queryKeyHashFn w1 qc ?key = None \<and> e = TypeError \<and> w' = w1"
            with seed have "w' = w" by auto
            then show ?thesis by simp
          next
            assume "\<exists>h. queryKeyHashFn w1 qc ?key = Some h \<and> queryData w1 qc h = None \<and>
                queryFn address floor (Some cfg) ?d w1 = Some (Inl e, w')"
            then obtain h where h: "queryKeyHashFn w1 qc ?key = Some h"
              "queryData w1 qc h = None"
              and q: "queryFn address floor (Some cfg) ?d w1 = Some (Inl e, w')" by blast
            from seed h have "w1 = w" by auto
            with q have "queryFn address floor (Some cfg) ?d w = Some (Inl e, w')" by simp
            then show ?thesis by (rule queryFn_failure)
          qed
        qed
      qed
    qed
  qed
qed

lemma only_calls_changed:
  assumes "w' = w\<lparr>calls := c\<rparr>"
  shows "localStorage w' = localStorage w \<and> queryData w' = queryData w \<and>
         w' = w\<lparr>calls := calls w'\<rparr>"
  using assms by simp

text \<open>
  Claim C4. When \<^verbatim>\<open>fetchDeploymentBlockX\<close> fails, for whatever reason (an invalid
  argument, no code at the head, a failure of the node at any probe, a query key
  the client cannot hash), the state it
  leaves differs from the state it found in the call log only: the storage and the
  data of every query client are untouched. The same holds of the query function
  alone and of \<^verbatim>\<open>fetchQuery\<close> running it.
\<close>

theorem failure_leaves_no_trace:
  "(fetchDeploymentBlockX address floor options queryClient wagmiConfig w = Some (Inl e, w') \<longrightarrow>
      localStorage w' = localStorage w \<and> queryData w' = queryData w \<and>
      w' = w\<lparr>calls := calls w'\<rparr>) \<and>
   (queryFn address floor wagmiConfig disableLocalStorage w = Some (Inl e, w') \<longrightarrow>
      localStorage w' = localStorage w \<and> queryData w' = queryData w \<and>
      w' = w\<lparr>calls := calls w'\<rparr>) \<and>
   (fetchQuery qc key (queryFn address floor wagmiConfig disableLocalStorage) w
        = Some (Inl e, w') \<longrightarrow>
      localStorage w' = localStorage w \<and> queryData w' = queryData w \<and>
      w' = w\<lparr>calls := calls w'\<rparr>)"
proof (rule conjI [OF impI conjI [OF impI impI]])
  assume "fetchDeploymentBlockX address floor options queryClient wagmiConfig w = Some (Inl e, w')"
  then have "w' = w\<lparr>calls := calls w'\<rparr>" by (rule fetch_failure)
  then show "localStorage w' = localStorage w \<and> queryData w' = queryData w \<and>
      w' = w\<lparr>calls := calls w'\<rparr>" by (rule only_calls_changed)
next
  assume "queryFn address floor wagmiConfig disableLocalStorage w = Some (Inl e, w')"
  then have "w' = w\<lparr>calls := calls w'\<rparr>" by (rule queryFn_failure)
  then show "localStorage w' = localStorage w \<and> queryData w' = queryData w \<and>
      w' = w\<lparr>calls := calls w'\<rparr>" by (rule only_calls_changed)
next
  assume "fetchQuery qc key (queryFn address floor wagmiConfig disableLocalStorage) w
        = Some (Inl e, w')"
  from fetchQuery_failure [OF this]
  have "w' = w \<or> queryFn address floor wagmiConfig disableLocalStorage w = Some (Inl e, w')"
    by blast
  then have "w' = w\<lparr>calls := calls w'\<rparr>" by (auto dest: queryFn_failure)
  then show "localStorage w' = localStorage w \<and> queryData w' = queryData w \<and>
      w' = w\<lparr>calls := calls w'\<rparr>" by (rule only_calls_changed)
qed

text \<open>
  The witness is a search that fails at the head check, over a storage that works
  and a cache that is empty.
\<close>

theorem failure_leaves_no_trace_witness:
  "fetchDeploymentBlockX ''0xabc'' 0 \<lparr>optDisableLocalStorage = None, optChainId = None\<rparr>
     (Some 0)
     (Some (Config (Some \<lparr>chain_id = Some 1, getBlockNumber = Inr 100,
                           getCode = (\<lambda>a b. Inr None)\<rparr>)))
     \<lparr>localStorage = Some emptyStorage, queryData = (\<lambda>q. Map.empty), queryKeyHashFn = (\<lambda>q. hashFn),
      defaultQueryClient = None, defaultWagmiConfig = None, calls = []\<rparr>
   = Some (Inl (NoCode ''0xabc'' 100 1),
           \<lparr>localStorage = Some emptyStorage, queryData = (\<lambda>q. Map.empty), queryKeyHashFn = (\<lambda>q. hashFn),
            defaultQueryClient = None, defaultWagmiConfig = None,
            calls = [GetBlockNumber, GetCode ''0xabc'' 100]\<rparr>) \<and>
   localStorage \<lparr>localStorage = Some emptyStorage, queryData = (\<lambda>q. Map.empty), queryKeyHashFn = (\<lambda>q. hashFn),
            defaultQueryClient = None, defaultWagmiConfig = None,
            calls = [GetBlockNumber, GetCode ''0xabc'' 100]\<rparr> = Some emptyStorage \<and>
   queryData \<lparr>localStorage = Some emptyStorage, queryData = (\<lambda>q. Map.empty), queryKeyHashFn = (\<lambda>q. hashFn),
            defaultQueryClient = None, defaultWagmiConfig = None,
            calls = [GetBlockNumber, GetCode ''0xabc'' 100]\<rparr> = (\<lambda>q. Map.empty)"
proof -
  have run: "fetchDeploymentBlockX ''0xabc'' 0 \<lparr>optDisableLocalStorage = None, optChainId = None\<rparr>
     (Some 0)
     (Some (Config (Some \<lparr>chain_id = Some 1, getBlockNumber = Inr 100,
                           getCode = (\<lambda>a b. Inr None)\<rparr>)))
     \<lparr>localStorage = Some emptyStorage, queryData = (\<lambda>q. Map.empty), queryKeyHashFn = (\<lambda>q. hashFn),
      defaultQueryClient = None, defaultWagmiConfig = None, calls = []\<rparr>
   = Some (Inl (NoCode ''0xabc'' 100 1),
           \<lparr>localStorage = Some emptyStorage, queryData = (\<lambda>q. Map.empty), queryKeyHashFn = (\<lambda>q. hashFn),
            defaultQueryClient = None, defaultWagmiConfig = None,
            calls = [GetBlockNumber, GetCode ''0xabc'' 100]\<rparr>)"
    by (simp add: fetchDeploymentBlockX_def ensureClientAndConfig_def orElse_def chainIdOf_def
        read_empty getDeploymentBlockQueryOptionsX_def fetchQuery_def queryFn_def
        findDeploymentBlockRpcX_def hasCodeAtX_def isCode_def hashFn_def deploymentBlockKey_def)
  from failure_leaves_no_trace [THEN conjunct1, rule_format, OF run] run
  show ?thesis by simp
qed

subsection \<open>A storage that fails\<close>













subsection \<open>The address argument\<close>

text \<open>
  Claim C8, as the source has it. The only test of the address is
  \<^verbatim>\<open>if (!address) throw new Error("Address is required")\<close>: an empty address is
  rejected by \<^verbatim>\<open>fetchDeploymentBlockX\<close> with the state, and so the call log,
  unchanged, and by \<^verbatim>\<open>getDeploymentBlockQueryOptionsX\<close> before any query function
  exists.
\<close>

theorem empty_address_rejected:
  "fetchDeploymentBlockX [] floor options queryClient wagmiConfig w
     = Some (Inl AddressRequired, w) \<and>
   getDeploymentBlockQueryOptionsX [] floor wagmiConfig optDisable = Inl AddressRequired"
  by (simp add: fetchDeploymentBlockX_def getDeploymentBlockQueryOptionsX_def)

theorem empty_address_rejected_witness:
  "fetchDeploymentBlockX [] 0 \<lparr>optDisableLocalStorage = None, optChainId = None\<rparr> (Some 0)
     (Some (Config (Some \<lparr>chain_id = Some 1, getBlockNumber = Inr 10,
                           getCode = (\<lambda>a b. Inr (Some ''0x6080''))\<rparr>)))
     \<lparr>localStorage = None, queryData = (\<lambda>q. Map.empty),
      queryKeyHashFn = (\<lambda>q. hashFn), defaultQueryClient = None,
      defaultWagmiConfig = None, calls = []\<rparr>
   = Some (Inl AddressRequired,
     \<lparr>localStorage = None, queryData = (\<lambda>q. Map.empty),
      queryKeyHashFn = (\<lambda>q. hashFn), defaultQueryClient = None,
      defaultWagmiConfig = None, calls = []\<rparr>)"
  using empty_address_rejected [of 0 "\<lparr>optDisableLocalStorage = None, optChainId = None\<rparr>"
      "Some 0"
      "Some (Config (Some \<lparr>chain_id = Some 1, getBlockNumber = Inr 10,
                           getCode = (\<lambda>a b. Inr (Some ''0x6080''))\<rparr>))"
      "\<lparr>localStorage = None, queryData = (\<lambda>q. Map.empty),
      queryKeyHashFn = (\<lambda>q. hashFn), defaultQueryClient = None,
      defaultWagmiConfig = None, calls = []\<rparr>"]
  by simp

text \<open>
  A malformed address that is not empty passes that test. For \<^verbatim>\<open>0xZZ\<close> the head
  of the chain is looked up and the code at the head is requested before the node
  turns the address down.
\<close>

theorem malformed_address_counterexample:
  "\<not> specWellFormedAddress ''0xZZ'' \<and>
   fetchDeploymentBlockX ''0xZZ'' 0 \<lparr>optDisableLocalStorage = None, optChainId = None\<rparr> (Some 0)
     (Some (Config (Some \<lparr>chain_id = Some 1, getBlockNumber = Inr 10,
                           getCode = (\<lambda>a b. Inl ''invalid address'')\<rparr>)))
     \<lparr>localStorage = None, queryData = (\<lambda>q. Map.empty),
      queryKeyHashFn = (\<lambda>q. hashFn), defaultQueryClient = None,
      defaultWagmiConfig = None, calls = []\<rparr>
   = Some (Inl (OracleError ''invalid address''),
     \<lparr>localStorage = None, queryData = (\<lambda>q. Map.empty),
      queryKeyHashFn = (\<lambda>q. hashFn), defaultQueryClient = None,
      defaultWagmiConfig = None, calls = [GetBlockNumber, GetCode ''0xZZ'' 10]\<rparr>)"
  by (simp add: specWellFormedAddress_def fetchDeploymentBlockX_def ensureClientAndConfig_def
      orElse_def chainIdOf_def readDeploymentBlockFromLS_def
      getDeploymentBlockQueryOptionsX_def fetchQuery_def queryFn_def
      findDeploymentBlockRpcX_def hasCodeAtX_def deploymentBlockKey_def hashFn_def)

end
